theory Spec2Isabelle
  imports Complex_Main "HOL-Library.Word" "HOL-Library.Sublist"
begin

section \<open>The REST pipeline of \<open>rest.go\<close>\<close>

text \<open>
  The theory embeds \<open>BaseRestClient.Request\<close>, \<open>BaseRestClient.RequestWithFiles\<close>,
  \<open>BaseRestClient.handleRequest\<close> and \<open>partHeader\<close> of \<open>src/rest.go\<close>.
  One goroutine runs at a time in the sequential model: the state holds the client
  (with its \<open>sync.RWMutex\<close> and the deadline \<open>lockedTo\<close>), a logical clock, the number of
  calls of \<open>HTTPClient.Do\<close> made so far and the ordered log of the operations performed.
  Everything outside the repository (the transport, \<open>json.Unmarshal\<close>, \<open>http.NewRequest\<close>,
  the package constants that are declared in another file) is a field of the environment.
\<close>

subsection \<open>Data\<close>

type_synonym bytes = string

text \<open>Nanoseconds. \<open>0\<close> stands for the zero \<open>time.Time{}\<close>, for which \<open>IsZero\<close> holds.\<close>
type_synonym time = int
type_synonym duration = int

definition time_Microsecond :: duration where
  "time_Microsecond = 1000"

definition time_Second :: duration where
  "time_Second = 1000000000"

text \<open>\<open>sync.RWMutex\<close>: the number of read locks held and whether the write lock is held.\<close>
record RWMutex =
  readers :: nat
  writer :: bool

record BaseRestClient =
  Token :: string
  MaxRetries :: "8 word"
  mu :: RWMutex
  lockedTo :: time

text \<open>\<open>RetryAfter\<close> is a \<open>float32\<close>; the model keeps its exact rational value.\<close>
record rateLimitError =
  Message :: string
  RetryAfter :: rat
  Global :: bool

text \<open>
  An \<open>http.Response\<close> as the code reads it: \<open>StatusCode\<close>, the status line \<open>Status\<close> and
  the outcome of \<open>io.ReadAll(res.Body)\<close> (\<open>Inl\<close> the error text, \<open>Inr\<close> the bytes).
\<close>
record response =
  StatusCode :: int
  Status :: string
  Body :: "string + bytes"

text \<open>
  What one call of \<open>HTTPClient.Do\<close> does: the time it takes, how many bytes of the request
  body the transport read from the reader it was given, and the error or the response.
\<close>
datatype do_result =
  DoError nat nat string
  | DoResponse nat nat response

record http_request =
  req_method :: string
  req_url :: string
  req_headers :: "(string \<times> string) list"
  req_body :: bytes

text \<open>
  A \<open>*bytes.Reader\<close> or \<open>*bytes.Buffer\<close> handed over as \<open>io.Reader\<close>: the underlying bytes
  and the read offset. Reading advances the offset and nothing in \<open>rest.go\<close> rewinds it.
\<close>
record reader =
  rbuf :: bytes
  roff :: nat

definition NewReader :: "bytes \<Rightarrow> reader" where
  "NewReader b = \<lparr>rbuf = b, roff = 0\<rparr>"

text \<open>The unread bytes: what \<open>http.NewRequest\<close> takes as the body (\<open>ContentLength = Len()\<close>).\<close>
definition unread :: "reader option \<Rightarrow> bytes" where
  "unread p = (case p of None \<Rightarrow> [] | Some r \<Rightarrow> drop (roff r) (rbuf r))"

definition consume :: "nat \<Rightarrow> reader option \<Rightarrow> reader option" where
  "consume k p =
     (case p of None \<Rightarrow> None
      | Some r \<Rightarrow> Some (r\<lparr>roff := min (length (rbuf r)) (roff r + k)\<rparr>))"

datatype event =
  EvGate time
  | EvSleep duration
  | EvRLock
  | EvRUnlock
  | EvLock
  | EvUnlock
  | EvDo time http_request
  | EvReadAll
  | EvSet time

record state =
  rest :: BaseRestClient
  clock :: time
  calls :: nat
  log :: "event list"

text \<open>
  The value handed to \<open>jsonPayload\<close>: the nil interface, a value \<open>json.Marshal\<close> rejects, or a
  value with its \<open>json.Marshal\<close> output.
\<close>
datatype payload =
  NilPayload
  | Unmarshalable
  | Marshals bytes

text \<open>
  The environment. The five constants are declared outside \<open>rest.go\<close> and are parameters.
  \<open>http_NewRequest_error\<close> is the error of \<open>http.NewRequest\<close> for a method and a URL,
  \<open>transport\<close> the behaviour of the n-th call of \<open>HTTPClient.Do\<close>, \<open>json_Unmarshal\<close> the
  struct that \<open>json.Unmarshal(body, &rateErr)\<close> leaves in a zero \<open>rateLimitError\<close> (its error
  is dropped by the code), \<open>boundary\<close> the random boundary of \<open>multipart.NewWriter\<close>.
\<close>
record env =
  DISCORD_API_URL :: string
  USER_AGENT :: string
  CONTENT_TYPE_JSON :: string
  requestSwapNullArray :: bytes
  requestSwapEmptyArray :: bytes
  http_NewRequest_error :: "string \<Rightarrow> string \<Rightarrow> string option"
  transport :: "nat \<Rightarrow> do_result"
  json_Unmarshal :: "bytes \<Rightarrow> rateLimitError"
  boundary :: string

text \<open>
  How a call ends: it blocks for ever on the mutex (no other goroutine runs that could
  release it), it panics, or it returns.
\<close>
datatype 'a exec =
  Blocked state
  | Panic string state
  | Done 'a state

definition andThen :: "'a exec \<Rightarrow> ('a \<Rightarrow> state \<Rightarrow> 'b exec) \<Rightarrow> 'b exec" where
  "andThen m f =
     (case m of Blocked s \<Rightarrow> Blocked s | Panic e s \<Rightarrow> Panic e s | Done x s \<Rightarrow> f x s)"

fun final :: "'a exec \<Rightarrow> state" where
  "final (Blocked s) = s"
| "final (Panic e s) = s"
| "final (Done x s) = s"

subsection \<open>The standard library, as far as the code uses it\<close>

definition emit :: "event \<Rightarrow> state \<Rightarrow> state" where
  "emit e s = s\<lparr>log := log s @ [e]\<rparr>"

text \<open>\<open>time.Sleep\<close> returns at once for a duration that is not positive.\<close>
definition Sleep :: "duration \<Rightarrow> state \<Rightarrow> state" where
  "Sleep d s = emit (EvSleep d) (s\<lparr>clock := clock s + max 0 d\<rparr>)"

definition set_mu :: "RWMutex \<Rightarrow> state \<Rightarrow> state" where
  "set_mu m s = s\<lparr>rest := (rest s)\<lparr>mu := m\<rparr>\<rparr>"

text \<open>An assignment to \<open>rest.lockedTo\<close>.\<close>
definition set_lockedTo :: "time \<Rightarrow> state \<Rightarrow> state" where
  "set_lockedTo t s = emit (EvSet t) (s\<lparr>rest := (rest s)\<lparr>lockedTo := t\<rparr>\<rparr>)"

definition RLock :: "state \<Rightarrow> unit exec" where
  "RLock s =
     (let m = mu (rest s) in
      if writer m then Blocked s
      else Done () (emit EvRLock (set_mu (m\<lparr>readers := readers m + 1\<rparr>) s)))"

definition RUnlock :: "state \<Rightarrow> unit exec" where
  "RUnlock s =
     (let m = mu (rest s) in
      if readers m = 0 then Panic ''sync: RUnlock of unlocked RWMutex'' s
      else Done () (emit EvRUnlock (set_mu (m\<lparr>readers := readers m - 1\<rparr>) s)))"

text \<open>\<open>Lock\<close> waits until no reader and no writer holds the mutex.\<close>
definition Lock :: "state \<Rightarrow> unit exec" where
  "Lock s =
     (let m = mu (rest s) in
      if readers m = 0 \<and> \<not> writer m
      then Done () (emit EvLock (set_mu (m\<lparr>writer := True\<rparr>) s))
      else Blocked s)"

definition Unlock :: "state \<Rightarrow> unit exec" where
  "Unlock s =
     (let m = mu (rest s) in
      if writer m then Done () (emit EvUnlock (set_mu (m\<lparr>writer := False\<rparr>) s))
      else Panic ''sync: Unlock of unlocked RWMutex'' s)"

text \<open>
  A conversion of a float to \<open>time.Duration\<close> drops the fraction. The argument is an exact
  rational here: the rounding of the \<open>float32\<close> sum \<open>RetryAfter+5\<close> and the conversion of a
  value outside \<open>int64\<close> are not modelled. Both concern only the statements after the
  \<open>Lock\<close> of line 190.
\<close>
definition Duration_of_float :: "rat \<Rightarrow> int" where
  "Duration_of_float x = (if 0 \<le> x then \<lfloor>x\<rfloor> else \<lceil>x\<rceil>)"

text \<open>\<open>int64\<close> multiplication wraps around.\<close>
definition wrap64 :: "int \<Rightarrow> int" where
  "wrap64 x = (x + 2 ^ 63) mod 2 ^ 64 - 2 ^ 63"

text \<open>
  \<open>bytes.Replace(s, old, new, -1)\<close>: every non-overlapping instance of \<open>old\<close>, from the left,
  is replaced by \<open>new\<close>. For an empty \<open>old\<close> Go inserts \<open>new\<close> before every UTF-8 sequence
  and at the end; the model does so before every byte, which is the same on ASCII.
\<close>
function Replace :: "bytes \<Rightarrow> bytes \<Rightarrow> bytes \<Rightarrow> bytes" where
  "Replace s old new =
     (if old = [] then new @ concat (map (\<lambda>c. c # new) s)
      else if s = [] then []
      else if prefix old s then new @ Replace (drop (length old) s) old new
      else hd s # Replace (tl s) old new)"
  by pat_completeness auto
termination
  by (relation "measure (\<lambda>(s, old, new). length s)") auto

declare Replace.simps [simp del]

subsection \<open>\<open>handleRequest\<close> (rest.go, lines 162 to 206)\<close>

text \<open>
  The result is the triple \<open>([]byte, error, finished)\<close> of the source, a nil slice and a nil
  error being \<open>None\<close>, together with the reader after the attempt.
\<close>
type_synonym attempt = "(bytes option \<times> string option \<times> bool) \<times> reader option"

definition handleRequest ::
  "env \<Rightarrow> string \<Rightarrow> string \<Rightarrow> reader option \<Rightarrow> string \<Rightarrow> state \<Rightarrow> attempt exec" where
  "handleRequest E method route payload contentType s =
     (case http_NewRequest_error E method (DISCORD_API_URL E @ route) of
        Some e \<Rightarrow> Done ((None, Some (''failed to initialize new request: '' @ e), False), payload) s
      | None \<Rightarrow>
          (let request = \<lparr>req_method = method, req_url = DISCORD_API_URL E @ route,
                 req_headers = [(''Content-Type'', contentType), (''User-Agent'', USER_AGENT E),
                   (''Authorization'', Token (rest s))],
                 req_body = unread payload\<rparr>;
               s1 = emit (EvDo (clock s) request) (s\<lparr>calls := calls s + 1\<rparr>)
           in case transport E (calls s) of
                DoError el k e \<Rightarrow>
                  Done ((None, Some (''failed to process request: '' @ e), False), consume k payload)
                    (s1\<lparr>clock := clock s1 + int el\<rparr>)
              | DoResponse el k res \<Rightarrow>
                  (let s2 = s1\<lparr>clock := clock s1 + int el\<rparr>; payload' = consume k payload in
                   if StatusCode res = 204 then Done ((None, None, True), payload') s2
                   else
                     (let s3 = emit EvReadAll s2 in
                      case Body res of
                        Inl e \<Rightarrow>
                          Done ((None, Some (''failed to parse response body (json): '' @ e), True),
                            payload') s3
                      | Inr body \<Rightarrow>
                          if StatusCode res = 429 then
                            (let rateErr = json_Unmarshal E body in
                             andThen (Lock s3) (\<lambda>_ s4.
                               let timeLeft = clock s4 +
                                     wrap64 (time_Second * Duration_of_float (RetryAfter rateErr + 5))
                               in andThen (Unlock (set_lockedTo timeLeft s4)) (\<lambda>_ s5.
                                    andThen (Lock (Sleep (timeLeft - clock s5) s5)) (\<lambda>_ s6.
                                      andThen (Unlock (set_lockedTo 0 s6)) (\<lambda>_ s7.
                                        Done ((None, Some ''rate limit'', False), payload') s7)))))
                          else if StatusCode res < 200 \<or> StatusCode res > 299 then
                            Done ((None, Some (Status res @ '' :: '' @ body), True), payload') s3
                          else Done ((Some body, None, True), payload') s3))))"

subsection \<open>\<open>Request\<close> (rest.go, lines 57 to 88)\<close>

text \<open>The check of the deadline, lines 68 to 73 and 95 to 100.\<close>
definition awaitGate :: "state \<Rightarrow> state" where
  "awaitGate s =
     (let s1 = emit (EvGate (lockedTo (rest s))) s in
      if lockedTo (rest s1) \<noteq> 0 then
        (let timeLeft = lockedTo (rest s1) - clock s1 in
         if timeLeft > 0 then Sleep timeLeft s1 else s1)
      else s1)"

text \<open>
  The loop of lines 75 to 85, which lines 147 to 157 repeat with another content type and
  another error after the loop (\<open>failure\<close>). The counter is a \<open>uint8\<close>, and so is the
  product \<open>250*i\<close>.
\<close>
function attempts ::
  "env \<Rightarrow> string \<Rightarrow> string \<Rightarrow> string \<Rightarrow> string \<Rightarrow> reader option \<Rightarrow> 8 word \<Rightarrow> state
     \<Rightarrow> (bytes option \<times> string option) exec" where
  "attempts E method route contentType failure body i s =
     (if i < MaxRetries (rest s) then
        (case RLock s of
           Blocked b \<Rightarrow> Blocked b
         | Panic e b \<Rightarrow> Panic e b
         | Done u s1 \<Rightarrow>
             (case handleRequest E method route body contentType s1 of
                Blocked b \<Rightarrow> Blocked b
              | Panic e b \<Rightarrow> Panic e b
              | Done r s2 \<Rightarrow>
                  if snd (snd (fst r)) then Done (fst (fst r), fst (snd (fst r))) s2
                  else
                    (case RUnlock s2 of
                       Blocked b \<Rightarrow> Blocked b
                     | Panic e b \<Rightarrow> Panic e b
                     | Done u s3 \<Rightarrow>
                         attempts E method route contentType failure (snd r) (i + 1)
                           (Sleep (time_Microsecond * uint (250 * (i + 1))) s3))))
      else Done (None, Some failure) s)"
  by pat_completeness auto
termination
proof (relation "measure (\<lambda>(E, method, route, contentType, failure, body, i, s). 256 - unat i)")
  show "wf (measure (\<lambda>(E, method, route, contentType, failure, body, i, s). 256 - unat i))"
    by simp
next
  fix i :: "8 word" and s :: state
  assume "i < MaxRetries (rest s)"
  then have "unat i < unat (MaxRetries (rest s))"
    by (simp add: word_less_nat_alt)
  moreover have "unat (MaxRetries (rest s)) < 256"
    using unsigned_less [of "MaxRetries (rest s)"] by simp
  ultimately have small: "unat i + 1 < 256"
    by linarith
  then have "unat (i + 1) = unat i + 1"
    by (simp add: unat_word_ariths)
  then show "\<And>E method route contentType failure body r s3.
       ((E, method, route, contentType, failure, snd r, i + 1,
         Sleep (time_Microsecond * uint (250 * (i + 1))) s3),
        E, method, route, contentType, failure, body, i, s)
       \<in> measure (\<lambda>(E, method, route, contentType, failure, body, i, s). 256 - unat i)"
    using small by simp
qed

declare attempts.simps [simp del]

definition Request ::
  "env \<Rightarrow> string \<Rightarrow> string \<Rightarrow> payload \<Rightarrow> state \<Rightarrow> (bytes option \<times> string option) exec" where
  "Request E method route jsonPayload s =
     (case jsonPayload of
        Unmarshalable \<Rightarrow>
          Done (None, Some ''failed to parse provided payload (make sure it's in JSON format)'') s
      | _ \<Rightarrow>
          (let body =
                 (case jsonPayload of
                    Marshals raw \<Rightarrow>
                      Some (NewReader (Replace raw (requestSwapNullArray E) (requestSwapEmptyArray E)))
                  | _ \<Rightarrow> None)
           in attempts E method route (CONTENT_TYPE_JSON E)
                (''failed to make http request in set limit of attempts to '' @ method @ '' :: ''
                   @ route @ '' (check internet connection and/or app credentials)'')
                body 0 (awaitGate s)))"

subsection \<open>\<open>RequestWithFiles\<close> (rest.go, lines 90 to 160) and \<open>partHeader\<close>\<close>

text \<open>
  An \<open>*os.File\<close> as the code uses it: \<open>Name()\<close>, the outcome of \<open>Stat()\<close> (\<open>Inl\<close> the error
  text, \<open>Inr\<close> the \<open>Name()\<close> of the file info) and the outcome of \<open>io.Copy\<close> from the file
  (\<open>Inl\<close> the error text, \<open>Inr\<close> the bytes read).
\<close>
record os_file =
  Name :: string
  Stat :: "string + string"
  Data :: "string + bytes"

text \<open>
  A \<open>multipart.Writer\<close> over a \<open>bytes.Buffer\<close>: the buffer and whether a part has been
  created. On a buffer its writes do not fail.
\<close>
record Writer =
  wbuf :: bytes
  lastpart :: bool

definition CRLF :: string where
  "CRLF = [CHR 0x0D, CHR 0x0A]"

text \<open>\<open>strconv.Itoa\<close> on an index, which is never negative.\<close>
function Itoa :: "nat \<Rightarrow> string" where
  "Itoa n =
     (if n < 10 then [''0123456789'' ! n] else Itoa (n div 10) @ [''0123456789'' ! (n mod 10)])"
  by pat_completeness auto
termination
  by (relation "measure id") auto

declare Itoa.simps [simp del]

text \<open>
  The header of a part; \<open>multipart.Writer\<close> writes the keys in sorted order, which is the
  order of this list.
\<close>
definition partHeader :: "string \<Rightarrow> string \<Rightarrow> (string \<times> string) list" where
  "partHeader contentDisposition contentType =
     [(''Content-Disposition'', contentDisposition), (''Content-Type'', contentType)]"

definition CreatePart :: "string \<Rightarrow> (string \<times> string) list \<Rightarrow> Writer \<Rightarrow> Writer" where
  "CreatePart b header w =
     w\<lparr>wbuf := wbuf w @ (if lastpart w then CRLF else []) @ ''--'' @ b @ CRLF
          @ concat (map (\<lambda>kv. fst kv @ '': '' @ snd kv @ CRLF) header) @ CRLF,
       lastpart := True\<rparr>"

definition part_Write :: "bytes \<Rightarrow> Writer \<Rightarrow> Writer" where
  "part_Write d w = w\<lparr>wbuf := wbuf w @ d\<rparr>"

definition Close :: "string \<Rightarrow> Writer \<Rightarrow> Writer" where
  "Close b w = w\<lparr>wbuf := wbuf w @ CRLF @ ''--'' @ b @ ''--'' @ CRLF\<rparr>"

text \<open>
  \<open>json.NewEncoder(w).Encode(v)\<close> writes the JSON encoding of \<open>v\<close> and a newline; the
  encoding of the nil interface is \<open>null\<close>.
\<close>
definition json_Encode :: "payload \<Rightarrow> string + bytes" where
  "json_Encode v =
     (case v of
        NilPayload \<Rightarrow> Inr (''null'' @ [CHR 0x0A])
      | Unmarshalable \<Rightarrow> Inl ''json: unsupported value''
      | Marshals raw \<Rightarrow> Inr (raw @ [CHR 0x0A]))"

text \<open>The two \<open>Content-Disposition\<close> values, with their double quotes (lines 114 and 132).\<close>
definition json_disposition :: string where
  "json_disposition = ''form-data; name='' @ [CHR 0x22] @ ''payload_json'' @ [CHR 0x22]"

definition file_disposition :: "string \<Rightarrow> string \<Rightarrow> string" where
  "file_disposition num name =
     ''form-data; name='' @ [CHR 0x22] @ ''files['' @ num @ '']'' @ [CHR 0x22]
       @ ''; filename='' @ [CHR 0x22] @ name @ [CHR 0x22]"

text \<open>The loop over the files, lines 124 to 140.\<close>
fun file_parts :: "string \<Rightarrow> nat \<Rightarrow> os_file list \<Rightarrow> Writer \<Rightarrow> string + Writer" where
  "file_parts b itx [] w = Inr w"
| "file_parts b itx (file # files) w =
     (let num = Itoa itx in
      case Stat file of
        Inl err \<Rightarrow> Inl (''failed to read statistics of file['' @ num @ '']: '' @ err)
      | Inr name \<Rightarrow>
          (let filePart = CreatePart b
                 (partHeader (file_disposition num name) ''application/octet-stream'') w
           in case Data file of
                Inl err \<Rightarrow>
                  Inl (''failed to encode your '' @ [CHR 0x22] @ Name file @ [CHR 0x22]
                         @ '' file data into multipart payload: '' @ err)
              | Inr d \<Rightarrow> file_parts b (itx + 1) files (part_Write d filePart)))"

text \<open>
  \<open>body\<close> and \<open>writer\<close> are assigned only under \<open>jsonPayload != nil\<close> (lines 104 to 112),
  and \<open>bytes.NewBuffer\<close> makes the patched JSON the initial contents of the buffer the
  writer appends to. A method call on the nil \<open>*multipart.Writer\<close> panics. The boundary is
  made of hexadecimal digits, which \<open>FormDataContentType\<close> does not quote.
\<close>
definition RequestWithFiles ::
  "env \<Rightarrow> string \<Rightarrow> string \<Rightarrow> payload \<Rightarrow> os_file list \<Rightarrow> state
     \<Rightarrow> (bytes option \<times> string option) exec" where
  "RequestWithFiles E method route jsonPayload files s =
     (if files = [] then Request E method route jsonPayload s
      else
        (let s1 = awaitGate s in
         case jsonPayload of
           Unmarshalable \<Rightarrow>
             Done (None, Some ''failed to parse provided payload (make sure it's in JSON format)'') s1
         | _ \<Rightarrow>
             (let writer =
                    (case jsonPayload of
                       Marshals raw \<Rightarrow>
                         Some \<lparr>wbuf = Replace raw (requestSwapNullArray E) (requestSwapEmptyArray E),
                           lastpart = False\<rparr>
                     | _ \<Rightarrow> None)
              in case writer of
                   None \<Rightarrow>
                     Panic ''runtime error: invalid memory address or nil pointer dereference'' s1
                 | Some w \<Rightarrow>
                     (let jsonPart = CreatePart (boundary E)
                            (partHeader json_disposition (CONTENT_TYPE_JSON E)) w
                      in case json_Encode jsonPayload of
                           Inl err \<Rightarrow>
                             Done (None,
                               Some (''failed to encode your json data into multipart payload: '' @ err)) s1
                         | Inr enc \<Rightarrow>
                             (case file_parts (boundary E) 0 files (part_Write enc jsonPart) of
                                Inl err \<Rightarrow> Done (None, Some err) s1
                              | Inr w2 \<Rightarrow>
                                  attempts E method route
                                    (''multipart/form-data; boundary='' @ boundary E)
                                    (''failed to make http request 3 times to '' @ method @ '' :: ''
                                       @ route
                                       @ '' (check internet connection and/or app credentials)'')
                                    (Some (NewReader (wbuf (Close (boundary E) w2)))) 0 s1)))))"

subsection \<open>\<open>NewBaseRestClient\<close> (rest.go, lines 38 to 55) and a client at work\<close>

definition NewBaseRestClient :: "string \<Rightarrow> BaseRestClient" where
  "NewBaseRestClient token =
     \<lparr>Token = (if prefix ''Bot '' token then token else ''Bot '' @ token),
       MaxRetries = 3,
       mu = \<lparr>readers = 0, writer = False\<rparr>,
       lockedTo = 0\<rparr>"

text \<open>A freshly made client at time \<open>t\<close>, before any call.\<close>
definition fresh :: "string \<Rightarrow> time \<Rightarrow> state" where
  "fresh token t = \<lparr>rest = NewBaseRestClient token, clock = t, calls = 0, log = []\<rparr>"

text \<open>
  An environment for the worked examples: sample values for the constants, a
  \<open>http.NewRequest\<close> that accepts every method and URL, a given transport and a given
  \<open>retry_after\<close>.
\<close>
definition example_env :: "(nat \<Rightarrow> do_result) \<Rightarrow> rat \<Rightarrow> env" where
  "example_env t r =
     \<lparr>DISCORD_API_URL = ''https://discord.com/api/v10'',
       USER_AGENT = ''DiscordApp'',
       CONTENT_TYPE_JSON = ''application/json'',
       requestSwapNullArray = ''null'',
       requestSwapEmptyArray = ''[]'',
       http_NewRequest_error = (\<lambda>method url. None),
       transport = t,
       json_Unmarshal = (\<lambda>body. \<lparr>Message = [], RetryAfter = r, Global = False\<rparr>),
       boundary = ''b0''\<rparr>"

text \<open>Transports for the worked examples: the same result every time, or a first result and then another.\<close>
definition always :: "do_result \<Rightarrow> nat \<Rightarrow> do_result" where
  "always d n = d"

definition first_then :: "do_result \<Rightarrow> do_result \<Rightarrow> nat \<Rightarrow> do_result" where
  "first_then d d' n = (if n = 0 then d else d')"

definition reply :: "int \<Rightarrow> string \<Rightarrow> bytes \<Rightarrow> do_result" where
  "reply code line body = DoResponse 0 1000 \<lparr>StatusCode = code, Status = line, Body = Inr body\<rparr>"

subsection \<open>Names for the states an attempt goes through\<close>

text \<open>The request built at lines 163 to 170.\<close>
definition request_of ::
  "env \<Rightarrow> string \<Rightarrow> string \<Rightarrow> reader option \<Rightarrow> string \<Rightarrow> state \<Rightarrow> http_request" where
  "request_of E method route payload contentType s =
     \<lparr>req_method = method, req_url = DISCORD_API_URL E @ route,
       req_headers = [(''Content-Type'', contentType), (''User-Agent'', USER_AGENT E),
         (''Authorization'', Token (rest s))],
       req_body = unread payload\<rparr>"

text \<open>The state after a call of \<open>HTTPClient.Do\<close> that took \<open>el\<close> nanoseconds.\<close>
definition sent ::
  "env \<Rightarrow> string \<Rightarrow> string \<Rightarrow> reader option \<Rightarrow> string \<Rightarrow> nat \<Rightarrow> state \<Rightarrow> state" where
  "sent E method route payload contentType el s =
     (emit (EvDo (clock s) (request_of E method route payload contentType s))
        (s\<lparr>calls := calls s + 1\<rparr>))\<lparr>clock := clock s + int el\<rparr>"

text \<open>The state after a successful \<open>RLock\<close>.\<close>
definition locked_r :: "state \<Rightarrow> state" where
  "locked_r s = emit EvRLock (set_mu ((mu (rest s))\<lparr>readers := readers (mu (rest s)) + 1\<rparr>) s)"

text \<open>The \<open>body\<close> of \<open>Request\<close>, lines 58 to 66.\<close>
definition json_body :: "env \<Rightarrow> payload \<Rightarrow> reader option" where
  "json_body E jsonPayload =
     (case jsonPayload of
        Marshals raw \<Rightarrow>
          Some (NewReader (Replace raw (requestSwapNullArray E) (requestSwapEmptyArray E)))
      | _ \<Rightarrow> None)"

text \<open>The error of \<open>Request\<close> after the loop, line 87.\<close>
definition out_of_attempts :: "string \<Rightarrow> string \<Rightarrow> string" where
  "out_of_attempts method route =
     ''failed to make http request in set limit of attempts to '' @ method @ '' :: '' @ route
       @ '' (check internet connection and/or app credentials)''"

subsection \<open>Reading the log\<close>

text \<open>The durations handed to \<open>time.Sleep\<close>, in order.\<close>
fun sleeps :: "event list \<Rightarrow> duration list" where
  "sleeps [] = []"
| "sleeps (EvSleep d # es) = d # sleeps es"
| "sleeps (e # es) = sleeps es"

text \<open>The request bodies handed to \<open>HTTPClient.Do\<close>, in order.\<close>
fun sent_bodies :: "event list \<Rightarrow> bytes list" where
  "sent_bodies [] = []"
| "sent_bodies (EvDo t r # es) = req_body r # sent_bodies es"
| "sent_bodies (e # es) = sent_bodies es"

text \<open>The times at which \<open>HTTPClient.Do\<close> was called, in order.\<close>
fun sent_times :: "event list \<Rightarrow> time list" where
  "sent_times [] = []"
| "sent_times (EvDo t r # es) = t # sent_times es"
| "sent_times (e # es) = sent_times es"

text \<open>The values assigned to \<open>rest.lockedTo\<close>, in order.\<close>
fun deadlines :: "event list \<Rightarrow> time list" where
  "deadlines [] = []"
| "deadlines (EvSet t # es) = t # deadlines es"
| "deadlines (e # es) = deadlines es"

text \<open>The number of reads of the deadline by the check of lines 68 to 73.\<close>
fun gate_reads :: "event list \<Rightarrow> nat" where
  "gate_reads [] = 0"
| "gate_reads (EvGate t # es) = Suc (gate_reads es)"
| "gate_reads (e # es) = gate_reads es"

text \<open>
  Whether every call of \<open>HTTPClient.Do\<close> in a log has a read of the deadline before it
  that no earlier call of \<open>Do\<close> has used up: the flag tells whether such a read is pending.
\<close>
fun gated :: "bool \<Rightarrow> event list \<Rightarrow> bool" where
  "gated g [] = True"
| "gated g (EvGate t # es) = gated True es"
| "gated g (EvDo t r # es) = (g \<and> gated False es)"
| "gated g (e # es) = gated g es"

subsection \<open>What a call may do to the log, the clock and the deadline\<close>

text \<open>
  \<open>follows s s'\<close>: from \<open>s\<close> to \<open>s'\<close> the log has grown by events among which there is no
  read of the deadline and no call of \<open>Do\<close> before the time of \<open>s\<close>; the clock has not gone
  back; the deadline is the same.
\<close>
definition follows :: "state \<Rightarrow> state \<Rightarrow> bool" where
  "follows s s' \<longleftrightarrow>
     (\<exists>es. log s' = log s @ es \<and> gate_reads es = 0
        \<and> list_all (\<lambda>t. clock s \<le> t) (sent_times es))
     \<and> clock s \<le> clock s' \<and> lockedTo (rest s') = lockedTo (rest s)"

text \<open>
  \<open>gate_once s s'\<close>: from \<open>s\<close> to \<open>s'\<close> the first thing logged is a read of the deadline,
  no other read follows, and every call of \<open>Do\<close> comes at a time when the deadline read is
  unset or has passed.
\<close>
definition gate_once :: "state \<Rightarrow> state \<Rightarrow> bool" where
  "gate_once s s' \<longleftrightarrow>
     (\<exists>es. log s' = log s @ EvGate (lockedTo (rest s)) # es \<and> gate_reads es = 0
        \<and> list_all (\<lambda>t. lockedTo (rest s) = 0 \<or> lockedTo (rest s) \<le> t) (sent_times es))"

section \<open>Several requests on one client\<close>

text \<open>
  The control flow of the loop of \<open>Request\<close> (and of \<open>RequestWithFiles\<close>) and of
  \<open>handleRequest\<close>, reduced to the operations on \<open>rest.mu\<close>, for any number of goroutines
  that share one client. A goroutine is at one of these places:
  \<^item> \<open>AtLoop\<close>: line 76, before the test \<open>i < rest.MaxRetries\<close> and the \<open>RLock\<close> of line 78;
  \<^item> \<open>InFlight\<close>: lines 79 and 163 to 186, the read lock held, the attempt under way;
  \<^item> \<open>AtLock190\<close>: in \<open>rest.mu.Lock()\<close> of line 190, after a 429;
  \<^item> \<open>Holding190\<close>: lines 191 and 192, the write lock held;
  \<^item> \<open>Sleeping195\<close>: line 195;
  \<^item> \<open>AtLock197\<close>: in \<open>rest.mu.Lock()\<close> of line 197;
  \<^item> \<open>Holding197\<close>: line 198, the write lock held;
  \<^item> \<open>Unfinished\<close>: line 83, \<open>handleRequest\<close> has returned \<open>finished = false\<close>;
  \<^item> \<open>Returned\<close>: the call has returned at line 81 (the read lock is not released there);
  \<^item> \<open>GaveUp\<close>: the call has returned at line 87.
\<close>
datatype pc =
  AtLoop
  | InFlight
  | AtLock190
  | Holding190
  | Sleeping195
  | AtLock197
  | Holding197
  | Unfinished
  | Returned
  | GaveUp

text \<open>How an attempt under way ends: \<open>finished = true\<close>, a failure that is retried, or a 429.\<close>
datatype outcome =
  Finished
  | Failed
  | Limited

text \<open>The mutex and, for every goroutine, its place and its counter \<open>i\<close>.\<close>
record pool =
  pmu :: RWMutex
  goroutines :: "(pc \<times> 8 word) list"

fun holds_read :: "pc \<Rightarrow> bool" where
  "holds_read AtLoop = False"
| "holds_read GaveUp = False"
| "holds_read p = True"

text \<open>A call of \<open>Lock\<close> that is waiting keeps new readers out.\<close>
definition lock_pending :: "(pc \<times> 8 word) list \<Rightarrow> bool" where
  "lock_pending gs = list_ex (\<lambda>g. fst g = AtLock190 \<or> fst g = AtLock197) gs"

definition move :: "nat \<Rightarrow> pc \<times> 8 word \<Rightarrow> RWMutex \<Rightarrow> pool \<Rightarrow> pool" where
  "move k g m c = \<lparr>pmu = m, goroutines = (goroutines c)[k := g]\<rparr>"

text \<open>
  One step of goroutine \<open>k\<close>, the attempt under way ending as \<open>out\<close> says; \<open>None\<close> when the
  goroutine cannot move: it is blocked in \<open>RLock\<close> or \<open>Lock\<close>, or its call has returned.
\<close>
definition advance :: "8 word \<Rightarrow> nat \<Rightarrow> outcome \<Rightarrow> pool \<Rightarrow> pool option" where
  "advance M k out c =
     (if k < length (goroutines c) then
        (let m = pmu c; p = fst (goroutines c ! k); i = snd (goroutines c ! k) in
         case p of
           AtLoop \<Rightarrow>
             if i < M then
               (if writer m \<or> lock_pending (goroutines c) then None
                else Some (move k (InFlight, i + 1) (m\<lparr>readers := readers m + 1\<rparr>) c))
             else Some (move k (GaveUp, i) m c)
         | InFlight \<Rightarrow>
             Some (move k
               (case out of Finished \<Rightarrow> Returned | Failed \<Rightarrow> Unfinished | Limited \<Rightarrow> AtLock190, i)
               m c)
         | AtLock190 \<Rightarrow>
             if readers m = 0 \<and> \<not> writer m
             then Some (move k (Holding190, i) (m\<lparr>writer := True\<rparr>) c) else None
         | Holding190 \<Rightarrow> Some (move k (Sleeping195, i) (m\<lparr>writer := False\<rparr>) c)
         | Sleeping195 \<Rightarrow> Some (move k (AtLock197, i) m c)
         | AtLock197 \<Rightarrow>
             if readers m = 0 \<and> \<not> writer m
             then Some (move k (Holding197, i) (m\<lparr>writer := True\<rparr>) c) else None
         | Holding197 \<Rightarrow> Some (move k (Unfinished, i) (m\<lparr>writer := False\<rparr>) c)
         | Unfinished \<Rightarrow> Some (move k (AtLoop, i) (m\<lparr>readers := readers m - 1\<rparr>) c)
         | Returned \<Rightarrow> None
         | GaveUp \<Rightarrow> None)
      else None)"

text \<open>
  A schedule names, step by step, the goroutine to run and the end of its attempt; a step
  that cannot be taken is passed over.
\<close>
fun run :: "8 word \<Rightarrow> (nat \<times> outcome) list \<Rightarrow> pool \<Rightarrow> pool" where
  "run M [] c = c"
| "run M (d # sch) c =
     (case advance M (fst d) (snd d) c of None \<Rightarrow> run M sch c | Some c' \<Rightarrow> run M sch c')"

text \<open>\<open>n\<close> calls about to start on a client nobody has used.\<close>
definition start :: "nat \<Rightarrow> pool" where
  "start n = \<lparr>pmu = \<lparr>readers = 0, writer = False\<rparr>, goroutines = replicate n (AtLoop, 0)\<rparr>"

text \<open>The number of goroutines that hold a read lock.\<close>
definition holders :: "(pc \<times> 8 word) list \<Rightarrow> nat" where
  "holders gs = length (filter (\<lambda>g. holds_read (fst g)) gs)"

definition counted :: "pool \<Rightarrow> bool" where
  "counted c \<longleftrightarrow> readers (pmu c) = holders (goroutines c)"

subsection \<open>The multipart body the specification describes\<close>

text \<open>
  A part: the boundary line, the header lines, an empty line and the content. The parts
  follow each other separated by a line break, and the closing boundary line ends the body.
\<close>
definition part :: "string \<Rightarrow> (string \<times> string) list \<Rightarrow> bytes \<Rightarrow> bytes" where
  "part b header content =
     ''--'' @ b @ CRLF @ concat (map (\<lambda>kv. fst kv @ '': '' @ snd kv @ CRLF) header) @ CRLF
       @ content"

text \<open>The header of the part of file number \<open>itx\<close> with display name \<open>name\<close>.\<close>
definition file_header :: "nat \<Rightarrow> string \<Rightarrow> (string \<times> string) list" where
  "file_header itx name =
     partHeader (file_disposition (Itoa itx) name) ''application/octet-stream''"

text \<open>The file parts, numbered from \<open>itx\<close>, each after a line break.\<close>
fun file_part_seq :: "string \<Rightarrow> nat \<Rightarrow> (string \<times> bytes) list \<Rightarrow> bytes" where
  "file_part_seq b itx [] = []"
| "file_part_seq b itx (f # fs) =
     CRLF @ part b (file_header itx (fst f)) (snd f) @ file_part_seq b (itx + 1) fs"

text \<open>One JSON part under the name \<open>payload_json\<close>, then the file parts in order.\<close>
definition multipart_of :: "string \<Rightarrow> string \<Rightarrow> bytes \<Rightarrow> (string \<times> bytes) list \<Rightarrow> bytes" where
  "multipart_of b contentType json fs =
     part b (partHeader json_disposition contentType) json
     @ file_part_seq b 0 fs @ CRLF @ ''--'' @ b @ ''--'' @ CRLF"

text \<open>The display names and contents of the files, when every \<open>Stat\<close> and every copy succeeds.\<close>
fun contents :: "os_file list \<Rightarrow> (string \<times> bytes) list option" where
  "contents [] = Some []"
| "contents (f # fs) =
     (case Stat f of
        Inl e \<Rightarrow> None
      | Inr name \<Rightarrow>
          (case Data f of
             Inl e \<Rightarrow> None
           | Inr d \<Rightarrow> (case contents fs of None \<Rightarrow> None | Some r \<Rightarrow> Some ((name, d) # r))))"

section \<open>Properties\<close>

subsection \<open>One attempt\<close>

lemma RLock_free: "\<not> writer (mu (rest s)) \<Longrightarrow> RLock s = Done () (locked_r s)"
  by (simp add: RLock_def locked_r_def Let_def)

lemma locked_r_simps [simp]:
  "calls (locked_r s) = calls s" "clock (locked_r s) = clock s"
  "log (locked_r s) = log s @ [EvRLock]" "Token (rest (locked_r s)) = Token (rest s)"
  "MaxRetries (rest (locked_r s)) = MaxRetries (rest s)"
  "lockedTo (rest (locked_r s)) = lockedTo (rest s)"
  "readers (mu (rest (locked_r s))) = readers (mu (rest s)) + 1"
  "writer (mu (rest (locked_r s))) = writer (mu (rest s))"
  by (simp_all add: locked_r_def emit_def set_mu_def)

lemma awaitGate_simps [simp]:
  "rest (awaitGate s) = rest s" "calls (awaitGate s) = calls s"
  by (simp_all add: awaitGate_def Let_def emit_def Sleep_def)

lemma sent_simps [simp]:
  "calls (sent E m r p c el s) = calls s + 1" "clock (sent E m r p c el s) = clock s + int el"
  "log (sent E m r p c el s) = log s @ [EvDo (clock s) (request_of E m r p c s)]"
  "rest (sent E m r p c el s) = rest s"
  by (simp_all add: sent_def emit_def)

lemma handleRequest_204:
  assumes "http_NewRequest_error E method (DISCORD_API_URL E @ route) = None"
    and "transport E (calls s) = DoResponse el k res" and "StatusCode res = 204"
  shows "handleRequest E method route payload contentType s =
    Done ((None, None, True), consume k payload) (sent E method route payload contentType el s)"
  using assms by (simp add: handleRequest_def Let_def sent_def request_of_def emit_def)

lemma handleRequest_rejected:
  assumes "http_NewRequest_error E method (DISCORD_API_URL E @ route) = None"
    and "transport E (calls s) = DoResponse el k res"
    and "StatusCode res < 200 \<or> 299 < StatusCode res" and "StatusCode res \<noteq> 429"
    and "Body res = Inr body"
  shows "handleRequest E method route payload contentType s =
    Done ((None, Some (Status res @ '' :: '' @ body), True), consume k payload)
      (emit EvReadAll (sent E method route payload contentType el s))"
  using assms by (auto simp add: handleRequest_def Let_def sent_def request_of_def emit_def)

lemma handleRequest_unread:
  assumes "http_NewRequest_error E method (DISCORD_API_URL E @ route) = None"
    and "transport E (calls s) = DoResponse el k res"
    and "StatusCode res \<noteq> 204" and "Body res = Inl e"
  shows "handleRequest E method route payload contentType s =
    Done ((None, Some (''failed to parse response body (json): '' @ e), True), consume k payload)
      (emit EvReadAll (sent E method route payload contentType el s))"
  using assms by (auto simp add: handleRequest_def Let_def sent_def request_of_def emit_def)

lemma attempts_finished:
  assumes "i < MaxRetries (rest s)" and "\<not> writer (mu (rest s))"
    and "handleRequest E method route body contentType (locked_r s) = Done ((raw, err, True), b') s2"
  shows "attempts E method route contentType failure body i s = Done (raw, err) s2"
  using assms by (subst attempts.simps) (simp add: RLock_free)

subsection \<open>Responses that end the call\<close>

text \<open>At any turn of the loop, a 204 makes the call return \<open>(nil, nil)\<close> after that attempt.\<close>
lemma attempt_204_returns:
  assumes "i < MaxRetries (rest s)" and "\<not> writer (mu (rest s))"
    and "http_NewRequest_error E verb (DISCORD_API_URL E @ route) = None"
    and "transport E (calls s) = DoResponse el k res" and "StatusCode res = 204"
  shows "attempts E verb route contentType failure body i s =
    Done (None, None) (sent E verb route body contentType el (locked_r s))"
proof -
  have "handleRequest E verb route body contentType (locked_r s) =
      Done ((None, None, True), consume k body) (sent E verb route body contentType el (locked_r s))"
    by (rule handleRequest_204 [where res = res]) (simp_all add: assms)
  then show ?thesis
    by (rule attempts_finished [OF assms(1,2)])
qed

text \<open>At any turn of the loop, a rejection makes the call return its error after that attempt.\<close>
lemma attempt_rejected_returns:
  assumes "i < MaxRetries (rest s)" and "\<not> writer (mu (rest s))"
    and "http_NewRequest_error E verb (DISCORD_API_URL E @ route) = None"
    and "transport E (calls s) = DoResponse el k res"
    and "StatusCode res < 200 \<or> 299 < StatusCode res" and "StatusCode res \<noteq> 429"
    and "Body res = Inr b"
  shows "attempts E verb route contentType failure body i s =
    Done (None, Some (Status res @ '' :: '' @ b))
      (emit EvReadAll (sent E verb route body contentType el (locked_r s)))"
proof -
  have "handleRequest E verb route body contentType (locked_r s) =
      Done ((None, Some (Status res @ '' :: '' @ b), True), consume k body)
        (emit EvReadAll (sent E verb route body contentType el (locked_r s)))"
    by (rule handleRequest_rejected [where res = res]) (simp_all add: assms)
  then show ?thesis
    by (rule attempts_finished [OF assms(1,2)])
qed

lemma Request_attempts:
  "jsonPayload \<noteq> Unmarshalable \<Longrightarrow>
   Request E method route jsonPayload s =
     attempts E method route (CONTENT_TYPE_JSON E) (out_of_attempts method route)
       (json_body E jsonPayload) 0 (awaitGate s)"
  by (cases jsonPayload) (simp_all add: Request_def json_body_def out_of_attempts_def)

text \<open>
  Claim C9. A response with status 204 makes the call return a nil payload and a nil
  error: the log of the call ends with the \<open>RLock\<close> and the single \<open>Do\<close> of that attempt,
  so the body is not read, nothing is slept and no second attempt is made.
\<close>
theorem no_content_returns_nil:
  assumes "jsonPayload \<noteq> Unmarshalable" and "0 < MaxRetries (rest s)"
    and "\<not> writer (mu (rest s))"
    and "http_NewRequest_error E method (DISCORD_API_URL E @ route) = None"
    and "transport E (calls s) = DoResponse el k res" and "StatusCode res = 204"
  shows "\<exists>s' req. Request E method route jsonPayload s = Done (None, None) s'
    \<and> log s' = log (awaitGate s) @ [EvRLock, EvDo (clock (awaitGate s)) req]
    \<and> calls s' = calls s + 1"
proof -
  let ?body = "json_body E jsonPayload"
  have r: "Request E method route jsonPayload s =
     attempts E method route (CONTENT_TYPE_JSON E) (out_of_attempts method route)
       ?body 0 (awaitGate s)"
    by (rule Request_attempts [OF assms(1)])
  let ?g = "awaitGate s"
  have h: "handleRequest E method route ?body (CONTENT_TYPE_JSON E) (locked_r ?g) =
      Done ((None, None, True), consume k ?body)
        (sent E method route ?body (CONTENT_TYPE_JSON E) el (locked_r ?g))"
    by (rule handleRequest_204 [where res = res]) (simp_all add: assms)
  have "Request E method route jsonPayload s =
      Done (None, None) (sent E method route ?body (CONTENT_TYPE_JSON E) el (locked_r ?g))"
    unfolding r by (rule attempts_finished [OF _ _ h]) (simp_all add: assms)
  then show ?thesis by simp
qed

theorem no_content_returns_nil_witness:
  "\<exists>s' req. Request (example_env (always (reply 204 ''204 No Content'' [])) 0) ''DELETE''
       ''/channels/1/messages/2'' NilPayload (fresh ''abc'' 1000) = Done (None, None) s'
     \<and> log s' = [EvGate 0, EvRLock, EvDo 1000 req] \<and> calls s' = 1"
proof -
  have "\<exists>s' req. Request (example_env (always (reply 204 ''204 No Content'' [])) 0) ''DELETE''
       ''/channels/1/messages/2'' NilPayload (fresh ''abc'' 1000) = Done (None, None) s'
     \<and> log s' = log (awaitGate (fresh ''abc'' 1000))
          @ [EvRLock, EvDo (clock (awaitGate (fresh ''abc'' 1000))) req]
     \<and> calls s' = calls (fresh ''abc'' 1000) + 1"
    by (rule no_content_returns_nil [where el = 0 and k = 1000
          and res = "\<lparr>StatusCode = 204, Status = ''204 No Content'', Body = Inr []\<rparr>"])
      (simp_all add: example_env_def fresh_def NewBaseRestClient_def reply_def always_def)
  then show ?thesis
    by (simp add: awaitGate_def fresh_def NewBaseRestClient_def emit_def Let_def)
qed

text \<open>
  Claim C8, as stated, at a 404 whose body cannot be read (\<open>io.ReadAll\<close> fails with
  \<open>unexpected EOF\<close>): lines 181 to 184 come before the test of the status at line 201, so
  the call returns the read error. The error holds neither the status line nor the body.
\<close>
theorem unreadable_rejection_hides_status:
  "\<exists>s' req. Request
       (example_env (always (DoResponse 0 1000
          \<lparr>StatusCode = 404, Status = ''404 Not Found'', Body = Inl ''unexpected EOF''\<rparr>)) 0)
       ''GET'' ''/users/7'' NilPayload (fresh ''abc'' 1000) =
       Done (None, Some ''failed to parse response body (json): unexpected EOF'') s'
     \<and> log s' = [EvGate 0, EvRLock, EvDo 1000 req, EvReadAll]
     \<and> \<not> sublist ''404 Not Found'' ''failed to parse response body (json): unexpected EOF''"
  by (simp add: Request_def handleRequest_def awaitGate_def example_env_def fresh_def
      NewBaseRestClient_def always_def RLock_def emit_def set_mu_def Let_def unread_def
      consume_def andThen_def attempts.simps sublist_code)

text \<open>
  Claim C8, amended. A response whose status is neither 2xx nor 429 ends the call after that
  one attempt: the call returns an error, and the log shows one \<open>Do\<close>, the read of the body
  and nothing after it (no sleep, no further attempt). When the body was read the error is
  the status line, \<open>" :: "\<close> and the body, byte for byte; when reading the body failed the
  error is the read error, without the status line.
\<close>
theorem rejected_response_is_terminal:
  assumes "jsonPayload \<noteq> Unmarshalable" and "0 < MaxRetries (rest s)"
    and "\<not> writer (mu (rest s))"
    and "http_NewRequest_error E method (DISCORD_API_URL E @ route) = None"
    and "transport E (calls s) = DoResponse el k res"
    and "StatusCode res < 200 \<or> 299 < StatusCode res" and "StatusCode res \<noteq> 429"
  shows "\<exists>s' req. Request E method route jsonPayload s =
       Done (None, Some (case Body res of
                           Inl e \<Rightarrow> ''failed to parse response body (json): '' @ e
                         | Inr body \<Rightarrow> Status res @ '' :: '' @ body)) s'
    \<and> log s' = log (awaitGate s) @ [EvRLock, EvDo (clock (awaitGate s)) req, EvReadAll]
    \<and> calls s' = calls s + 1"
proof -
  let ?body = "json_body E jsonPayload"
  have r: "Request E method route jsonPayload s =
     attempts E method route (CONTENT_TYPE_JSON E) (out_of_attempts method route)
       ?body 0 (awaitGate s)"
    by (rule Request_attempts [OF assms(1)])
  let ?g = "awaitGate s"
  let ?e = "case Body res of
              Inl e \<Rightarrow> ''failed to parse response body (json): '' @ e
            | Inr body \<Rightarrow> Status res @ '' :: '' @ body"
  have no204: "StatusCode res \<noteq> 204"
    using assms(6) by auto
  have h: "handleRequest E method route ?body (CONTENT_TYPE_JSON E) (locked_r ?g) =
      Done ((None, Some ?e, True), consume k ?body)
        (emit EvReadAll (sent E method route ?body (CONTENT_TYPE_JSON E) el (locked_r ?g)))"
  proof (cases "Body res")
    case (Inl e)
    then show ?thesis
      using handleRequest_unread [of E "method" route "locked_r ?g" el k res e ?body]
        assms no204 by simp
  next
    case (Inr b)
    then show ?thesis
      using handleRequest_rejected [of E "method" route "locked_r ?g" el k res b ?body]
        assms by simp
  qed
  have "Request E method route jsonPayload s = Done (None, Some ?e)
      (emit EvReadAll (sent E method route ?body (CONTENT_TYPE_JSON E) el (locked_r ?g)))"
    unfolding r by (rule attempts_finished [OF _ _ h]) (simp_all add: assms)
  then show ?thesis by (simp add: emit_def)
qed

theorem rejected_response_is_terminal_witness:
  "\<exists>s' req. Request (example_env (always (reply 404 ''404 Not Found'' ''{}'')) 0) ''GET''
       ''/users/7'' NilPayload (fresh ''abc'' 1000) = Done (None, Some ''404 Not Found :: {}'') s'
     \<and> log s' = [EvGate 0, EvRLock, EvDo 1000 req, EvReadAll] \<and> calls s' = 1"
proof -
  have "\<exists>s' req. Request (example_env (always (reply 404 ''404 Not Found'' ''{}'')) 0) ''GET''
       ''/users/7'' NilPayload (fresh ''abc'' 1000) =
       Done (None, Some (case Body \<lparr>StatusCode = 404, Status = ''404 Not Found'', Body = Inr ''{}''\<rparr> of
                           Inl e \<Rightarrow> ''failed to parse response body (json): '' @ e
                         | Inr body \<Rightarrow>
                             Status \<lparr>StatusCode = 404, Status = ''404 Not Found'', Body = Inr ''{}''\<rparr>
                               @ '' :: '' @ body)) s'
     \<and> log s' = log (awaitGate (fresh ''abc'' 1000))
          @ [EvRLock, EvDo (clock (awaitGate (fresh ''abc'' 1000))) req, EvReadAll]
     \<and> calls s' = calls (fresh ''abc'' 1000) + 1"
    by (rule rejected_response_is_terminal [where el = 0 and k = 1000])
      (simp_all add: example_env_def fresh_def NewBaseRestClient_def reply_def always_def)
  then show ?thesis
    by (simp add: awaitGate_def fresh_def NewBaseRestClient_def emit_def Let_def)
qed

subsection \<open>Worked runs\<close>

lemmas run_defs = Request_def RequestWithFiles_def handleRequest_def awaitGate_def
  example_env_def fresh_def NewBaseRestClient_def reply_def always_def first_then_def RLock_def RUnlock_def Lock_def
  Unlock_def Sleep_def emit_def set_mu_def set_lockedTo_def andThen_def Let_def
  unread_def consume_def NewReader_def time_Microsecond_def time_Second_def

lemmas multipart_defs = CreatePart_def partHeader_def part_Write_def Close_def json_Encode_def
  json_disposition_def file_disposition_def

text \<open>
  Claim C6. The default client, three attempts that all fail in the transport: the call
  makes three attempts and sleeps after each, but the delays are 250, 244 and 238
  microseconds. The product \<open>250*i\<close> is computed in \<open>uint8\<close> and wraps around at 256, so the
  delay shrinks from one attempt to the next instead of growing.
\<close>
theorem backoff_delays_shrink:
  "sleeps (log (final (Request (example_env (always (DoError 0 0 ''timeout'')) 0) ''GET'' ''/gateway''
     NilPayload (fresh ''abc'' 1000)))) = [250000, 244000, 238000]"
  by (simp add: run_defs attempts.simps)

lemma three_failures_exhaust:
  "\<exists>s'. Request (example_env (always (DoError 0 0 ''timeout'')) 0) ''GET'' ''/gateway''
     NilPayload (fresh ''abc'' 1000) = Done (None, Some (out_of_attempts ''GET'' ''/gateway'')) s'
     \<and> calls s' = 3"
  by (simp add: run_defs attempts.simps out_of_attempts_def)

text \<open>
  Claim C5. A payload that marshals to \<open>{}\<close>; the first attempt fails in the transport
  after the transport has read the body, the second gets a 200. The reader made at line 65
  is handed to both attempts and is at its end after the first, so the second attempt is
  sent with an empty body.
\<close>
theorem retry_sends_consumed_body:
  "sent_bodies (log (final (Request
     (example_env (first_then (DoError 0 1000 ''timeout'') (reply 200 ''200 OK'' ''ok'')) 0)
     ''POST'' ''/x'' (Marshals ''{}'') (fresh ''abc'' 1000)))) = [''{}'', '''']"
  by (simp add: run_defs attempts.simps Replace.simps)

text \<open>
  Claim C3. With at least one file and a nil payload, \<open>writer\<close> is still the nil pointer
  when line 114 calls \<open>writer.CreatePart\<close>: the call panics and no body is produced.
\<close>
theorem files_without_payload_panic:
  "RequestWithFiles E method route NilPayload (f # fs) s =
     Panic ''runtime error: invalid memory address or nil pointer dereference'' (awaitGate s)"
  by (simp add: RequestWithFiles_def Let_def)

text \<open>
  Claim C7. A payload that marshals to \<open>null\<close> (a nil slice), sent with one file, the
  constants being \<open>null\<close> and \<open>[]\<close>. The body that is sent starts with the patched bytes
  \<open>[]\<close>, before the first boundary, and the \<open>payload_json\<close> part holds the output of
  \<open>Encode\<close>, which is not patched: \<open>null\<close> and a newline.
\<close>
theorem multipart_json_part_not_patched:
  "sent_bodies (log (final (RequestWithFiles
     (example_env (always (reply 204 ''204 No Content'' [])) 0)
     ''POST'' ''/channels/1/messages'' (Marshals ''null'')
     [\<lparr>Name = ''/tmp/a.txt'', Stat = Inr ''a.txt'', Data = Inr ''hi''\<rparr>] (fresh ''abc'' 1000)))) =
   [''[]'' @
    ''--b0'' @ CRLF @
    ''Content-Disposition: form-data; name='' @ [CHR 0x22] @ ''payload_json'' @ [CHR 0x22] @ CRLF @
    ''Content-Type: application/json'' @ CRLF @ CRLF @
    ''null'' @ [CHR 0x0A] @ CRLF @
    ''--b0'' @ CRLF @
    ''Content-Disposition: form-data; name='' @ [CHR 0x22] @ ''files[0]'' @ [CHR 0x22]
       @ ''; filename='' @ [CHR 0x22] @ ''a.txt'' @ [CHR 0x22] @ CRLF @
    ''Content-Type: application/octet-stream'' @ CRLF @ CRLF @
    ''hi'' @ CRLF @
    ''--b0--'' @ CRLF]"
  by (simp add: run_defs multipart_defs attempts.simps Replace.simps Itoa.simps)

lemma plain_json_body_patched:
  "sent_bodies (log (final (Request (example_env (always (reply 204 ''204 No Content'' [])) 0)
     ''POST'' ''/channels/1/messages'' (Marshals ''null'') (fresh ''abc'' 1000)))) = [''[]'']"
  by (simp add: run_defs attempts.simps Replace.simps)

text \<open>
  Claim C10. A 429 whose body is not JSON, so that \<open>RetryAfter\<close> stays 0. The attempt holds
  the read lock of line 78 when line 190 asks for the write lock: the call blocks there. The
  deadline is still unset, no time has passed, and nothing is returned.
\<close>
theorem unparsable_rate_limit_blocks:
  "\<exists>s' req. Request (example_env (always (reply 429 ''429 Too Many Requests'' ''<html>'')) 0)
       ''GET'' ''/gateway'' NilPayload (fresh ''abc'' 1000) = Blocked s'
     \<and> log s' = [EvGate 0, EvRLock, EvDo 1000 req, EvReadAll]
     \<and> lockedTo (rest s') = 0 \<and> clock s' = 1000
     \<and> mu (rest s') = \<lparr>readers = 1, writer = False\<rparr>"
  by (simp add: run_defs attempts.simps)

subsection \<open>The 429 branch\<close>

lemma handleRequest_429_held:
  assumes "http_NewRequest_error E method (DISCORD_API_URL E @ route) = None"
    and "transport E (calls s) = DoResponse el k res"
    and "StatusCode res = 429" and "Body res = Inr body"
    and "0 < readers (mu (rest s))"
  shows "handleRequest E method route payload contentType s =
    Blocked (emit EvReadAll (sent E method route payload contentType el s))"
  using assms
  by (simp add: handleRequest_def Let_def sent_def request_of_def emit_def Lock_def andThen_def)

text \<open>
  What the branch does when nobody holds the mutex, which is never the case when
  \<open>Request\<close> or \<open>RequestWithFiles\<close> call it: the deadline is set to the whole seconds of
  \<open>RetryAfter + 5\<close> from now, the attempt sleeps until then, resets the deadline and returns
  the error \<open>rate limit\<close> with \<open>finished = false\<close>.
\<close>
lemma handleRequest_429_unlocked:
  assumes "http_NewRequest_error E method (DISCORD_API_URL E @ route) = None"
    and "transport E (calls s) = DoResponse el k res"
    and "StatusCode res = 429" and "Body res = Inr body"
    and "readers (mu (rest s)) = 0" and "\<not> writer (mu (rest s))"
    and "margin = wrap64 (time_Second * Duration_of_float (RetryAfter (json_Unmarshal E body) + 5))"
  shows "\<exists>s'. handleRequest E method route payload contentType s =
       Done ((None, Some ''rate limit'', False), consume k payload) s'
     \<and> log s' = log s @ [EvDo (clock s) (request_of E method route payload contentType s),
          EvReadAll, EvLock, EvSet (clock s + int el + margin), EvUnlock,
          EvSleep margin, EvLock, EvSet 0, EvUnlock]
     \<and> clock s' = clock s + int el + max 0 margin
     \<and> lockedTo (rest s') = 0 \<and> mu (rest s') = mu (rest s)"
  using assms
  by (simp add: handleRequest_def Let_def request_of_def emit_def Lock_def Unlock_def
      andThen_def set_mu_def set_lockedTo_def Sleep_def)

lemma Duration_of_float_drops_fraction:
  "Duration_of_float (1 / 2 + 5) = 5" "Duration_of_float (2 + 5) = 7"
  by (simp_all add: Duration_of_float_def floor_eq_iff)

lemma margin_is_whole_seconds:
  "wrap64 (time_Second * Duration_of_float (1 / 2 + 5)) = 5 * time_Second"
  "wrap64 (time_Second * Duration_of_float (2 + 5)) = 7 * time_Second"
  unfolding Duration_of_float_drops_fraction by (simp_all add: wrap64_def time_Second_def)

text \<open>
  Claim C4. An attempt of the loop that gets a 429 never returns: it blocks at line 190,
  where it asks for the write lock of the mutex whose read lock it took at line 78 (or
  150). The deadline is left as it was, whatever \<open>retry_after\<close> the body carries.
\<close>
theorem rate_limited_attempt_blocks:
  assumes "i < MaxRetries (rest s)" and "\<not> writer (mu (rest s))"
    and "http_NewRequest_error E method (DISCORD_API_URL E @ route) = None"
    and "transport E (calls s) = DoResponse el k res"
    and "StatusCode res = 429" and "Body res = Inr body"
  shows "attempts E method route contentType failure payload i s =
      Blocked (emit EvReadAll (sent E method route payload contentType el (locked_r s)))
    \<and> lockedTo (rest (emit EvReadAll (sent E method route payload contentType el (locked_r s))))
        = lockedTo (rest s)"
proof -
  have "handleRequest E method route payload contentType (locked_r s) =
      Blocked (emit EvReadAll (sent E method route payload contentType el (locked_r s)))"
    by (rule handleRequest_429_held [where res = res and body = body]) (simp_all add: assms)
  then show ?thesis
    using assms(1,2) by (subst attempts.simps) (simp add: RLock_free emit_def)
qed

theorem rate_limited_attempt_blocks_witness:
  "attempts (example_env (always (reply 429 ''429 Too Many Requests'' ''{}'')) 2) ''GET'' ''/gateway''
      ''application/json'' ''no luck'' None 0 (fresh ''abc'' 1000) =
      Blocked (emit EvReadAll
        (sent (example_env (always (reply 429 ''429 Too Many Requests'' ''{}'')) 2) ''GET'' ''/gateway''
           None ''application/json'' 0 (locked_r (fresh ''abc'' 1000))))
   \<and> lockedTo (rest (emit EvReadAll
        (sent (example_env (always (reply 429 ''429 Too Many Requests'' ''{}'')) 2) ''GET'' ''/gateway''
           None ''application/json'' 0 (locked_r (fresh ''abc'' 1000))))) = 0"
proof -
  have "lockedTo (rest (fresh ''abc'' 1000)) = 0"
    by (simp add: fresh_def NewBaseRestClient_def)
  moreover have "attempts (example_env (always (reply 429 ''429 Too Many Requests'' ''{}'')) 2)
      ''GET'' ''/gateway'' ''application/json'' ''no luck'' None 0 (fresh ''abc'' 1000) =
      Blocked (emit EvReadAll
        (sent (example_env (always (reply 429 ''429 Too Many Requests'' ''{}'')) 2) ''GET'' ''/gateway''
           None ''application/json'' 0 (locked_r (fresh ''abc'' 1000))))
   \<and> lockedTo (rest (emit EvReadAll
        (sent (example_env (always (reply 429 ''429 Too Many Requests'' ''{}'')) 2) ''GET'' ''/gateway''
           None ''application/json'' 0 (locked_r (fresh ''abc'' 1000)))))
       = lockedTo (rest (fresh ''abc'' 1000))"
    by (rule rate_limited_attempt_blocks [where k = 1000 and body = "''{}''"
          and res = "\<lparr>StatusCode = 429, Status = ''429 Too Many Requests'', Body = Inr ''{}''\<rparr>"])
      (simp_all add: example_env_def fresh_def NewBaseRestClient_def reply_def always_def)
  ultimately show ?thesis by simp
qed

subsection \<open>The deadline is read once\<close>

lemma gate_reads_append [simp]: "gate_reads (xs @ ys) = gate_reads xs + gate_reads ys"
  by (induction xs rule: gate_reads.induct) simp_all

lemma sent_times_append [simp]: "sent_times (xs @ ys) = sent_times xs @ sent_times ys"
  by (induction xs rule: sent_times.induct) simp_all

lemma follows_refl: "follows s s"
  by (simp add: follows_def)

lemma follows_trans:
  assumes "follows s s'" and "follows s' s''"
  shows "follows s s''"
proof -
  from assms(1) obtain es where es: "log s' = log s @ es" "gate_reads es = 0"
      "list_all (\<lambda>t. clock s \<le> t) (sent_times es)"
    and c: "clock s \<le> clock s'" and l: "lockedTo (rest s') = lockedTo (rest s)"
    unfolding follows_def by blast
  from assms(2) obtain fs where fs: "log s'' = log s' @ fs" "gate_reads fs = 0"
      "list_all (\<lambda>t. clock s' \<le> t) (sent_times fs)"
    and c': "clock s' \<le> clock s''" and l': "lockedTo (rest s'') = lockedTo (rest s')"
    unfolding follows_def by blast
  have "list_all (\<lambda>t. clock s \<le> t) (sent_times fs)"
    using fs(3) c by (auto simp: list_all_iff)
  then have "log s'' = log s @ (es @ fs) \<and> gate_reads (es @ fs) = 0
      \<and> list_all (\<lambda>t. clock s \<le> t) (sent_times (es @ fs))"
    using es fs by simp
  then show ?thesis
    unfolding follows_def using c c' l l' by (metis order_trans)
qed

lemma follows_locked_r: "follows s (locked_r s)"
  by (simp add: follows_def locked_r_def emit_def set_mu_def)

lemma follows_Sleep: "follows s (Sleep d s)"
  by (simp add: follows_def Sleep_def emit_def)

lemma follows_RUnlock: "follows s (final (RUnlock s))"
  by (simp add: follows_def RUnlock_def emit_def set_mu_def Let_def)

lemma RUnlock_Done: "RUnlock s = Done u s' \<Longrightarrow> follows s s'"
  using follows_RUnlock [of s] by simp

lemma RLock_cases: "RLock s = Blocked s \<or> RLock s = Done () (locked_r s)"
  by (simp add: RLock_def locked_r_def Let_def)

text \<open>With a read lock held, an attempt leaves the deadline alone.\<close>
lemma handleRequest_held_follows:
  assumes "0 < readers (mu (rest s))"
  shows "follows s (final (handleRequest E method route payload contentType s))"
  using assms
  by (auto simp: handleRequest_def follows_def Let_def emit_def andThen_def Lock_def
      split: option.splits do_result.splits sum.splits)

lemma attempts_follows:
  "follows s (final (attempts E verb route contentType failure body i s))"
proof (induction E verb route contentType failure body i s rule: attempts.induct)
  case (1 E verb route contentType failure body i s)
  show ?case
  proof (cases "i < MaxRetries (rest s)")
    case False
    then show ?thesis
      by (subst attempts.simps) (simp add: follows_refl)
  next
    case lt: True
    from RLock_cases [of s] show ?thesis
    proof
      assume "RLock s = Blocked s"
      then show ?thesis
        using lt by (subst attempts.simps) (simp add: follows_refl)
    next
      assume rl: "RLock s = Done () (locked_r s)"
      let ?s1 = "locked_r s"
      let ?h = "handleRequest E verb route body contentType ?s1"
      have h: "follows ?s1 (final ?h)"
        by (rule handleRequest_held_follows) simp
      have sh: "follows s (final ?h)"
        by (rule follows_trans [OF follows_locked_r h])
      show ?thesis
      proof (cases ?h)
        case (Blocked b)
        then show ?thesis
          using lt rl sh by (subst attempts.simps) simp
      next
        case (Panic e b)
        then show ?thesis
          using lt rl sh by (subst attempts.simps) simp
      next
        case (Done r s2)
        show ?thesis
        proof (cases "snd (snd (fst r))")
          case True
          then show ?thesis
            using lt rl sh Done by (subst attempts.simps) simp
        next
          case nf: False
          show ?thesis
          proof (cases "RUnlock s2")
            case (Blocked b)
            then have "b = s2"
              by (simp add: RUnlock_def Let_def split: if_splits)
            then show ?thesis
              using lt rl sh Done nf Blocked by (subst attempts.simps) simp
          next
            case (Panic e b)
            then have "b = s2"
              by (simp add: RUnlock_def Let_def split: if_splits)
            then show ?thesis
              using lt rl sh Done nf Panic by (subst attempts.simps) simp
          next
            case ru: (Done u s3)
            let ?s4 = "Sleep (time_Microsecond * uint (250 * (i + 1))) s3"
            have ih: "follows ?s4
                (final (attempts E verb route contentType failure (snd r) (i + 1) ?s4))"
              using "1.IH" [OF lt rl Done nf ru] .
            have "follows s s2"
              using sh Done by simp
            then have "follows s ?s4"
              using RUnlock_Done [OF ru] follows_Sleep follows_trans by blast
            then have "follows s
                (final (attempts E verb route contentType failure (snd r) (i + 1) ?s4))"
              using ih follows_trans by blast
            then show ?thesis
              using lt rl Done nf ru by (subst attempts.simps) simp
          qed
        qed
      qed
    qed
  qed
qed

lemma awaitGate_then:
  assumes "follows (awaitGate s) s'"
  shows "gate_once s s'"
proof -
  let ?L = "lockedTo (rest s)"
  from assms obtain es where es: "log s' = log (awaitGate s) @ es" "gate_reads es = 0"
      "list_all (\<lambda>t. clock (awaitGate s) \<le> t) (sent_times es)"
    unfolding follows_def by auto
  have "\<exists>gs. log (awaitGate s) = log s @ EvGate ?L # gs \<and> gate_reads gs = 0
      \<and> sent_times gs = []"
    by (simp add: awaitGate_def Let_def emit_def Sleep_def)
  then obtain gs where gs: "log (awaitGate s) = log s @ EvGate ?L # gs" "gate_reads gs = 0"
      "sent_times gs = []"
    by blast
  have late: "?L = 0 \<or> ?L \<le> clock (awaitGate s)"
    by (auto simp: awaitGate_def Let_def emit_def Sleep_def)
  have "list_all (\<lambda>t. ?L = 0 \<or> ?L \<le> t) (sent_times es)"
    using es(3) late by (auto simp: list_all_iff)
  then have "log s' = log s @ EvGate ?L # (gs @ es) \<and> gate_reads (gs @ es) = 0
      \<and> list_all (\<lambda>t. ?L = 0 \<or> ?L \<le> t) (sent_times (gs @ es))"
    using es gs by simp
  then show ?thesis
    unfolding gate_once_def by blast
qed

lemma Request_gate_once:
  assumes "jsonPayload \<noteq> Unmarshalable"
  shows "gate_once s (final (Request E method route jsonPayload s))"
  unfolding Request_attempts [OF assms] by (rule awaitGate_then [OF attempts_follows])

lemma RequestWithFiles_gate_once:
  assumes "jsonPayload \<noteq> Unmarshalable"
  shows "gate_once s (final (RequestWithFiles E method route jsonPayload files s))"
proof (cases "files = []")
  case True
  then show ?thesis
    using Request_gate_once [OF assms] by (simp add: RequestWithFiles_def)
next
  case False
  have "follows (awaitGate s) (final (RequestWithFiles E method route jsonPayload files s))"
    using False assms
    by (cases jsonPayload)
      (auto simp: RequestWithFiles_def Let_def follows_refl attempts_follows
        split: sum.splits)
  then show ?thesis
    by (rule awaitGate_then)
qed

text \<open>No call installs a deadline: an attempt that would do so blocks at line 190.\<close>
lemma Request_leaves_deadline:
  "lockedTo (rest (final (Request E method route jsonPayload s))) = lockedTo (rest s)"
proof (cases "jsonPayload = Unmarshalable")
  case True
  then show ?thesis
    by (simp add: Request_def)
next
  case False
  have "follows (awaitGate s) (final (Request E method route jsonPayload s))"
    unfolding Request_attempts [OF False] by (rule attempts_follows)
  then show ?thesis
    by (simp add: follows_def)
qed

text \<open>
  Claim C2, as stated, at a run of two attempts (a failure in the transport, then a 204):
  the second call of \<open>Do\<close> has no read of the deadline before it. The check of lines 68 to
  73 stands before the loop.
\<close>
theorem second_attempt_not_gated:
  "\<not> gated False (log (final (Request
      (example_env (first_then (DoError 0 0 ''timeout'') (reply 204 ''204 No Content'' [])) 0)
      ''GET'' ''/gateway'' NilPayload (fresh ''abc'' 1000))))"
  by (simp add: run_defs attempts.simps)

text \<open>
  Claim C2, amended. A call whose payload can be marshalled reads the deadline once, first
  of all, and sleeps until it has passed when it is set and in the future; no later attempt
  reads it again, and every attempt comes when the deadline read was unset or had passed.
  This holds for \<open>Request\<close> and for \<open>RequestWithFiles\<close>, however the call ends. (A
  payload that cannot be marshalled ends \<open>Request\<close> at line 62, before the check.)
\<close>
theorem deadline_read_once:
  assumes "jsonPayload \<noteq> Unmarshalable"
  shows "gate_once s (final (Request E method route jsonPayload s))
    \<and> gate_once s (final (RequestWithFiles E method route jsonPayload files s))"
  using Request_gate_once [OF assms] RequestWithFiles_gate_once [OF assms] by simp

theorem deadline_read_once_witness:
  "gate_once (fresh ''abc'' 1000) (final (Request
      (example_env (first_then (DoError 0 0 ''timeout'') (reply 204 ''204 No Content'' [])) 0)
      ''GET'' ''/gateway'' NilPayload (fresh ''abc'' 1000)))
   \<and> gate_once (fresh ''abc'' 1000) (final (RequestWithFiles
      (example_env (first_then (DoError 0 0 ''timeout'') (reply 204 ''204 No Content'' [])) 0)
      ''GET'' ''/gateway'' NilPayload [] (fresh ''abc'' 1000)))"
  by (rule deadline_read_once) simp

section \<open>The write lock cannot be taken\<close>

lemma holders_update:
  "k < length gs \<Longrightarrow>
   holders (gs[k := g]) + (if holds_read (fst (gs ! k)) then 1 else 0) =
   holders gs + (if holds_read (fst g) then 1 else 0)"
proof (induction gs arbitrary: k)
  case Nil
  then show ?case by simp
next
  case (Cons a gs)
  show ?case
  proof (cases k)
    case 0
    then show ?thesis by (simp add: holders_def)
  next
    case (Suc j)
    then have "j < length gs"
      using Cons.prems by simp
    from Cons.IH [OF this] show ?thesis
      using Suc by (simp add: holders_def)
  qed
qed

lemma holders_positive:
  "k < length gs \<Longrightarrow> holds_read (fst (gs ! k)) \<Longrightarrow> 0 < holders gs"
  unfolding holders_def by (metis filter_empty_conv length_greater_0_conv nth_mem)

lemma counted_start: "counted (start n)"
  by (simp add: counted_def start_def holders_def)

lemma advance_length:
  "advance M k out c = Some c' \<Longrightarrow> length (goroutines c') = length (goroutines c)"
  by (auto simp: advance_def move_def Let_def split: if_splits pc.splits)

lemma advance_counted:
  assumes "advance M k out c = Some c'" and "counted c"
  shows "counted c'"
proof -
  from assms(1) have k: "k < length (goroutines c)"
    by (simp add: advance_def split: if_splits)
  note h = holders_update [OF k]
  note p = holders_positive [OF k]
  show ?thesis
  proof (cases "fst (goroutines c ! k)")
    case InFlight
    then show ?thesis
      using assms k h [of "(Returned, snd (goroutines c ! k))"]
        h [of "(Unfinished, snd (goroutines c ! k))"]
        h [of "(AtLock190, snd (goroutines c ! k))"]
      by (cases out) (auto simp: advance_def move_def Let_def counted_def)
  next
    case AtLoop
    then show ?thesis
      using assms k h [of "(InFlight, snd (goroutines c ! k) + 1)"]
        h [of "(GaveUp, snd (goroutines c ! k))"]
      by (auto simp: advance_def move_def Let_def counted_def split: if_splits)
  next
    case AtLock190
    then show ?thesis
      using assms k h [of "(Holding190, snd (goroutines c ! k))"]
      by (auto simp: advance_def move_def Let_def counted_def split: if_splits)
  next
    case Holding190
    then show ?thesis
      using assms k h [of "(Sleeping195, snd (goroutines c ! k))"]
      by (auto simp: advance_def move_def Let_def counted_def split: if_splits)
  next
    case Sleeping195
    then show ?thesis
      using assms k h [of "(AtLock197, snd (goroutines c ! k))"]
      by (auto simp: advance_def move_def Let_def counted_def split: if_splits)
  next
    case AtLock197
    then show ?thesis
      using assms k h [of "(Holding197, snd (goroutines c ! k))"]
      by (auto simp: advance_def move_def Let_def counted_def split: if_splits)
  next
    case Holding197
    then show ?thesis
      using assms k h [of "(Unfinished, snd (goroutines c ! k))"]
      by (auto simp: advance_def move_def Let_def counted_def split: if_splits)
  next
    case Unfinished
    then show ?thesis
      using assms k h [of "(AtLoop, snd (goroutines c ! k))"]
      by (auto simp: advance_def move_def Let_def counted_def split: if_splits)
  next
    case Returned
    then show ?thesis
      using assms k by (simp add: advance_def Let_def)
  next
    case GaveUp
    then show ?thesis
      using assms k by (simp add: advance_def Let_def)
  qed
qed

text \<open>A goroutine in \<open>Lock\<close> holds a read lock itself, so it cannot take the step.\<close>
lemma lock_waiter_blocked:
  assumes "counted c" and "k < length (goroutines c)"
    and "fst (goroutines c ! k) = AtLock190 \<or> fst (goroutines c ! k) = AtLock197"
  shows "advance M k out c = None"
proof -
  have "holds_read (fst (goroutines c ! k))"
    using assms(3) by auto
  then have "0 < readers (pmu c)"
    using assms(1,2) holders_positive by (simp add: counted_def)
  then show ?thesis
    using assms(2,3) by (auto simp: advance_def Let_def)
qed

lemma advance_elsewhere:
  assumes "advance M j out c = Some c'" and "j \<noteq> k"
  shows "goroutines c' ! k = goroutines c ! k"
  using assms by (auto simp: advance_def move_def Let_def split: if_splits pc.splits)

lemma lock_waiter_stays_one_step:
  assumes "counted c" and "k < length (goroutines c)"
    and "fst (goroutines c ! k) = AtLock190" and "advance M j out c = Some c'"
  shows "goroutines c' ! k = goroutines c ! k"
proof (cases "j = k")
  case True
  then show ?thesis
    using lock_waiter_blocked [of c k M out] assms by simp
next
  case False
  then show ?thesis
    using advance_elsewhere [OF assms(4)] by simp
qed

lemma run_counted: "counted c \<Longrightarrow> counted (run M sch c)"
  by (induction sch arbitrary: c) (auto split: option.splits dest: advance_counted)

lemma run_length: "length (goroutines (run M sch c)) = length (goroutines c)"
  by (induction sch arbitrary: c) (auto split: option.splits dest: advance_length)

lemma lock_waiter_stays:
  assumes "counted c" and "k < length (goroutines c)" and "fst (goroutines c ! k) = AtLock190"
  shows "goroutines (run M sch c) ! k = goroutines c ! k"
  using assms
proof (induction sch arbitrary: c)
  case Nil
  then show ?case by simp
next
  case (Cons d sch)
  show ?case
  proof (cases "advance M (fst d) (snd d) c")
    case None
    then show ?thesis
      using Cons by simp
  next
    case (Some c')
    have same: "goroutines c' ! k = goroutines c ! k"
      using lock_waiter_stays_one_step [OF Cons.prems Some] .
    have "goroutines (run M sch c') ! k = goroutines c' ! k"
      using Cons.IH [of c'] advance_counted [OF Some Cons.prems(1)] advance_length [OF Some]
        Cons.prems(2,3) same by simp
    then show ?thesis
      using Some same by simp
  qed
qed

text \<open>
  Claim C1 fails on the code. Whatever \<open>n\<close> calls have done so far on a fresh client
  (schedule \<open>sch\<close>), once the call of goroutine \<open>k\<close> has got a 429 and stands in
  \<open>rest.mu.Lock()\<close> at line 190, it stands there after every continuation \<open>sch'\<close>, and it
  cannot take a step: it holds a read lock of the mutex it wants to lock.
\<close>
theorem waits_for_its_own_read_lock:
  assumes "k < n" and "fst (goroutines (run M sch (start n)) ! k) = AtLock190"
  shows "goroutines (run M sch' (run M sch (start n))) ! k = goroutines (run M sch (start n)) ! k
    \<and> advance M k out (run M sch' (run M sch (start n))) = None"
proof -
  let ?c = "run M sch (start n)"
  have c: "counted ?c"
    by (rule run_counted [OF counted_start])
  have k: "k < length (goroutines ?c)"
    using assms(1) by (simp add: run_length start_def)
  have stay: "goroutines (run M sch' ?c) ! k = goroutines ?c ! k"
    by (rule lock_waiter_stays [OF c k assms(2)])
  have k': "k < length (goroutines (run M sch' ?c))"
    using k by (simp add: run_length)
  have at': "fst (goroutines (run M sch' ?c) ! k) = AtLock190
      \<or> fst (goroutines (run M sch' ?c) ! k) = AtLock197"
    using stay assms(2) by simp
  have "advance M k out (run M sch' ?c) = None"
    by (rule lock_waiter_blocked [OF run_counted [OF c] k' at'])
  then show ?thesis
    using stay by simp
qed

text \<open>
  One call on the default client, a 429 at the first attempt, and any three further
  scheduling steps: the call is still at line 190.
\<close>
theorem waits_for_its_own_read_lock_witness:
  "goroutines (run 3 [(0, Failed), (0, Limited), (0, Finished)]
       (run 3 [(0, Finished), (0, Limited)] (start 1))) ! 0 = (AtLock190, 1)
   \<and> advance 3 0 Finished (run 3 [(0, Failed), (0, Limited), (0, Finished)]
       (run 3 [(0, Finished), (0, Limited)] (start 1))) = None"
proof -
  have at: "goroutines (run 3 [(0, Finished), (0, Limited)] (start 1)) ! 0 = (AtLock190, 1)"
    by (simp add: start_def advance_def move_def Let_def lock_pending_def)
  have there: "fst (goroutines (run 3 [(0, Finished), (0, Limited)] (start 1)) ! 0) = AtLock190"
    by (simp only: at fst_conv)
  have one: "(0::nat) < 1"
    by simp
  show ?thesis
    using waits_for_its_own_read_lock [OF one there,
        of "[(0, Failed), (0, Limited), (0, Finished)]" Finished]
    by (simp only: at)
qed

text \<open>
  In that run nothing at all can move any more: the only goroutine is blocked, and its
  call has not returned.
\<close>
lemma single_call_deadlocks:
  "run 3 [(0, Finished), (0, Limited)] (start 1) =
     \<lparr>pmu = \<lparr>readers = 1, writer = False\<rparr>, goroutines = [(AtLock190, 1)]\<rparr>"
  "advance 3 k out \<lparr>pmu = \<lparr>readers = 1, writer = False\<rparr>, goroutines = [(AtLock190, 1)]\<rparr> = None"
  by (simp_all add: start_def advance_def move_def Let_def lock_pending_def)

text \<open>
  A second goroutine that comes to line 78 while the first waits at line 190 is kept out
  by the waiting \<open>Lock\<close>: two calls, and nothing can move.
\<close>
lemma start_two:
  "start 2 = \<lparr>pmu = \<lparr>readers = 0, writer = False\<rparr>, goroutines = [(AtLoop, 0), (AtLoop, 0)]\<rparr>"
  by (simp add: start_def numeral_2_eq_2)

lemma two_calls_deadlock:
  "run 3 [(0, Finished), (0, Limited)] (start 2) =
     \<lparr>pmu = \<lparr>readers = 1, writer = False\<rparr>, goroutines = [(AtLock190, 1), (AtLoop, 0)]\<rparr>"
  "advance 3 k out
     \<lparr>pmu = \<lparr>readers = 1, writer = False\<rparr>, goroutines = [(AtLock190, 1), (AtLoop, 0)]\<rparr> = None"
proof -
  show "run 3 [(0, Finished), (0, Limited)] (start 2) =
     \<lparr>pmu = \<lparr>readers = 1, writer = False\<rparr>, goroutines = [(AtLock190, 1), (AtLoop, 0)]\<rparr>"
    unfolding start_two by (simp add: advance_def move_def Let_def lock_pending_def)
  show "advance 3 k out
     \<lparr>pmu = \<lparr>readers = 1, writer = False\<rparr>, goroutines = [(AtLock190, 1), (AtLoop, 0)]\<rparr> = None"
  proof (cases k)
    case 0
    then show ?thesis
      by (simp add: advance_def Let_def)
  next
    case (Suc j)
    then show ?thesis
      by (cases j) (simp_all add: advance_def Let_def lock_pending_def)
  qed
qed

subsection \<open>What \<open>RequestWithFiles\<close> hands to the loop\<close>

lemma contents_length: "contents files = Some fs \<Longrightarrow> length fs = length files"
  by (induction files arbitrary: fs) (auto split: sum.splits option.splits)

lemma file_parts_seq:
  assumes "lastpart w" and "contents files = Some fs"
  shows "file_parts b itx files w =
    Inr \<lparr>wbuf = wbuf w @ file_part_seq b itx fs, lastpart = True\<rparr>"
  using assms
proof (induction files arbitrary: itx w fs)
  case Nil
  then show ?case by simp
next
  case (Cons f files)
  from Cons.prems(2) obtain name d r where f: "Stat f = Inr name" "Data f = Inr d"
    and r: "contents files = Some r" and fs: "fs = (name, d) # r"
    by (auto split: sum.splits option.splits)
  let ?w = "part_Write d (CreatePart b (file_header itx name) w)"
  have w: "?w = \<lparr>wbuf = wbuf w @ CRLF @ part b (file_header itx name) d, lastpart = True\<rparr>"
    using Cons.prems(1) by (simp add: part_Write_def CreatePart_def part_def)
  have step: "file_parts b itx (f # files) w = file_parts b (itx + 1) files ?w"
    using f by (simp add: Let_def file_header_def)
  have ih: "file_parts b (itx + 1) files ?w =
      Inr \<lparr>wbuf = wbuf ?w @ file_part_seq b (itx + 1) r, lastpart = True\<rparr>"
    by (rule Cons.IH [OF _ r]) (simp add: w)
  have eq: "wbuf ?w @ file_part_seq b (itx + 1) r = wbuf w @ file_part_seq b itx fs"
    by (simp add: w fs)
  show ?case
    by (simp only: step ih eq)
qed

text \<open>
  With a payload and readable files the body is the patched JSON followed by the
  multipart body of the unpatched JSON and the files: one part more than there are files,
  in the order given, after bytes that belong to no part.
\<close>
lemma RequestWithFiles_body:
  assumes "files \<noteq> []" and "contents files = Some fs"
  shows "RequestWithFiles E method route (Marshals raw) files s =
    attempts E method route (''multipart/form-data; boundary='' @ boundary E)
      (''failed to make http request 3 times to '' @ method @ '' :: '' @ route
         @ '' (check internet connection and/or app credentials)'')
      (Some (NewReader
         (Replace raw (requestSwapNullArray E) (requestSwapEmptyArray E)
            @ multipart_of (boundary E) (CONTENT_TYPE_JSON E) (raw @ [CHR 0x0A]) fs)))
      0 (awaitGate s)"
proof -
  let ?R = "Replace raw (requestSwapNullArray E) (requestSwapEmptyArray E)"
  let ?h = "partHeader json_disposition (CONTENT_TYPE_JSON E)"
  let ?w = "part_Write (raw @ [CHR 0x0A]) (CreatePart (boundary E) ?h \<lparr>wbuf = ?R, lastpart = False\<rparr>)"
  have lp: "lastpart ?w"
    by (simp add: part_Write_def CreatePart_def)
  have wb: "wbuf ?w = ?R @ part (boundary E) ?h (raw @ [CHR 0x0A])"
    by (simp add: part_Write_def CreatePart_def part_def)
  have fp: "file_parts (boundary E) 0 files ?w =
      Inr \<lparr>wbuf = wbuf ?w @ file_part_seq (boundary E) 0 fs, lastpart = True\<rparr>"
    by (rule file_parts_seq [OF lp assms(2)])
  have body: "wbuf (Close (boundary E)
        \<lparr>wbuf = wbuf ?w @ file_part_seq (boundary E) 0 fs, lastpart = True\<rparr>) =
      ?R @ multipart_of (boundary E) (CONTENT_TYPE_JSON E) (raw @ [CHR 0x0A]) fs"
    unfolding wb by (simp add: Close_def multipart_of_def)
  show ?thesis
    using assms(1) by (simp add: RequestWithFiles_def Let_def json_Encode_def fp body)
qed

subsection \<open>Attempts that all fail in the transport\<close>

lemma handleRequest_transport_error:
  assumes "http_NewRequest_error E method (DISCORD_API_URL E @ route) = None"
    and "transport E (calls s) = DoError el k e"
  shows "handleRequest E method route payload contentType s =
    Done ((None, Some (''failed to process request: '' @ e), False), consume k payload)
      (sent E method route payload contentType el s)"
  using assms by (simp add: handleRequest_def Let_def sent_def request_of_def emit_def)

text \<open>What a failed attempt leaves of the body for the next one.\<close>
lemma unread_consume:
  "unread (consume k (Some r)) = drop (roff r + k) (rbuf r)"
  by (simp add: unread_def consume_def min_def)

text \<open>
  When every call of \<open>Do\<close> fails in the transport, the loop makes one attempt for every
  value of the counter up to \<open>MaxRetries\<close>, no more, and the call returns the error of
  line 87 (or 159).
\<close>
lemma attempts_all_fail:
  assumes "\<And>n. \<exists>el k e. transport E n = DoError el k e"
    and "http_NewRequest_error E verb (DISCORD_API_URL E @ route) = None"
    and "\<not> writer (mu (rest s))"
  shows "\<exists>s'. attempts E verb route contentType failure body i s = Done (None, Some failure) s'
    \<and> calls s' = calls s + (unat (MaxRetries (rest s)) - unat i)
    \<and> rest s' = rest s"
  using assms
proof (induction E verb route contentType failure body i s rule: attempts.induct)
  case (1 E verb route contentType failure body i s)
  show ?case
  proof (cases "i < MaxRetries (rest s)")
    case False
    then have "unat (MaxRetries (rest s)) - unat i = 0"
      by (simp add: word_less_nat_alt)
    then show ?thesis
      using False by (subst attempts.simps) simp
  next
    case lt: True
    obtain el k e where t: "transport E (calls s) = DoError el k e"
      using "1.prems"(1) [of "calls s"] by blast
    let ?s1 = "locked_r s"
    let ?r = "((None, Some (''failed to process request: '' @ e), False), consume k body)"
    let ?s2 = "sent E verb route body contentType el ?s1"
    have rl: "RLock s = Done () ?s1"
      by (rule RLock_free [OF "1.prems"(3)])
    have h: "handleRequest E verb route body contentType ?s1 = Done ?r ?s2"
      by (rule handleRequest_transport_error) (simp_all add: "1.prems"(2) t)
    let ?s3 = "emit EvRUnlock (set_mu (mu (rest s)) ?s2)"
    have ru: "RUnlock ?s2 = Done () ?s3"
      by (simp add: RUnlock_def Let_def locked_r_def emit_def set_mu_def sent_def)
    let ?s4 = "Sleep (time_Microsecond * uint (250 * (i + 1))) ?s3"
    have nf: "\<not> snd (snd (fst ?r))"
      by simp
    have w4: "\<not> writer (mu (rest ?s4))"
      using "1.prems"(3) by (simp add: Sleep_def emit_def set_mu_def)
    have rest4: "rest ?s4 = rest s"
      by (simp add: Sleep_def emit_def set_mu_def sent_def locked_r_def)
    have calls4: "calls ?s4 = calls s + 1"
      by (simp add: Sleep_def emit_def set_mu_def)
    have "unat i < unat (MaxRetries (rest s))"
      using lt by (simp add: word_less_nat_alt)
    moreover have "unat (MaxRetries (rest s)) < 256"
      using unsigned_less [of "MaxRetries (rest s)"] by simp
    ultimately have suc: "unat (i + 1) = unat i + 1" and below: "unat i < unat (MaxRetries (rest s))"
      by (simp_all add: unat_word_ariths)
    from "1.IH" [OF lt rl h nf ru "1.prems"(1,2) w4] show ?thesis
    proof (elim exE conjE)
      fix s'
      assume a: "attempts E verb route contentType failure (snd ?r) (i + 1) ?s4 =
          Done (None, Some failure) s'"
        and b: "calls s' = calls ?s4 + (unat (MaxRetries (rest ?s4)) - unat (i + 1))"
        and c: "rest s' = rest ?s4"
      have "calls s' = calls s + (unat (MaxRetries (rest s)) - unat i)"
        using b suc below rest4 calls4 by simp
      moreover have "attempts E verb route contentType failure body i s =
          Done (None, Some failure) s'"
        using lt rl h ru a by (subst attempts.simps) simp
      ultimately show ?thesis
        using c rest4 by simp
    qed
  qed
qed

subsection \<open>\<open>bytes.Replace\<close> as \<open>Request\<close> uses it\<close>

lemma Replace_Nil [simp]: "old \<noteq> [] \<Longrightarrow> Replace [] old new = []"
  by (simp add: Replace.simps)

lemma Replace_match:
  "old \<noteq> [] \<Longrightarrow> prefix old s \<Longrightarrow>
   Replace s old new = new @ Replace (drop (length old) s) old new"
  by (subst Replace.simps) auto

lemma Replace_skip:
  "old \<noteq> [] \<Longrightarrow> \<not> prefix old (c # cs) \<Longrightarrow>
   Replace (c # cs) old new = c # Replace cs old new"
  by (subst Replace.simps) simp

text \<open>Bytes that do not occur in \<open>old\<close> cannot start an instance of it.\<close>
lemma sublist_after_foreign:
  assumes "old \<noteq> []" and "set ns \<inter> set old = {}" and "sublist old (ns @ r)"
  shows "sublist old r"
  using assms(2,3)
proof (induction ns)
  case Nil
  then show ?case by simp
next
  case (Cons a ns)
  have "\<not> prefix old (a # ns @ r)"
  proof
    assume "prefix old (a # ns @ r)"
    then have "hd old = a"
      using assms(1) by (cases old) simp_all
    then have "a \<in> set old"
      using assms(1) by (cases old) auto
    then show False
      using Cons.prems(1) by simp
  qed
  then have "sublist old (ns @ r)"
    using Cons.prems(2) by (simp add: sublist_Cons_right)
  then show ?case
    using Cons.IH Cons.prems(1) by simp
qed

text \<open>A start of the output that is free of the bytes of \<open>new\<close> is a start of the input.\<close>
lemma prefix_of_Replace:
  assumes "old \<noteq> []" and "new \<noteq> []" and "set x \<inter> set new = {}"
    and "prefix x (Replace s old new)"
  shows "prefix x s"
  using assms(3,4)
proof (induction s arbitrary: x rule: length_induct)
  case (1 s)
  show ?case
  proof (cases x)
    case Nil
    then show ?thesis by simp
  next
    case (Cons a x')
    show ?thesis
    proof (cases "prefix old s")
      case True
      then have "prefix (a # x') (new @ Replace (drop (length old) s) old new)"
        using "1.prems"(2) Cons assms(1) by (simp add: Replace_match)
      then have "a = hd new"
        using assms(2) by (cases new) simp_all
      then have "a \<in> set new"
        using assms(2) by (cases new) auto
      then show ?thesis
        using "1.prems"(1) Cons by simp
    next
      case False
      show ?thesis
      proof (cases s)
        case Nil
        then show ?thesis
          using "1.prems"(2) Cons assms(1) by simp
      next
        case (Cons c cs)
        then have r: "Replace s old new = c # Replace cs old new"
          using False assms(1) by (simp add: Replace_skip)
        then have "a = c" and p: "prefix x' (Replace cs old new)"
          using "1.prems"(2) \<open>x = a # x'\<close> by simp_all
        moreover have "prefix x' cs"
          using "1.IH" [rule_format, of cs x'] p "1.prems"(1) \<open>x = a # x'\<close> Cons by simp
        ultimately show ?thesis
          using Cons \<open>x = a # x'\<close> by simp
      qed
    qed
  qed
qed

text \<open>
  When \<open>new\<close> is not empty and shares no byte with \<open>old\<close> (as \<open>[]\<close> and \<open>null\<close>), no
  instance of \<open>old\<close> is left in the output.
\<close>
lemma Replace_leaves_none:
  assumes "old \<noteq> []" and "new \<noteq> []" and "set old \<inter> set new = {}"
  shows "\<not> sublist old (Replace s old new)"
proof (induction s rule: length_induct)
  case (1 s)
  show ?case
  proof (cases "prefix old s")
    case True
    have "length (drop (length old) s) < length s"
      using True assms(1) by (cases s) (auto simp: prefix_def)
    then have ih: "\<not> sublist old (Replace (drop (length old) s) old new)"
      using "1.IH" by blast
    show ?thesis
    proof
      assume "sublist old (Replace s old new)"
      then have "sublist old (new @ Replace (drop (length old) s) old new)"
        using True assms(1) by (simp add: Replace_match)
      then have "sublist old (Replace (drop (length old) s) old new)"
        using sublist_after_foreign [OF assms(1)] assms(3) by (simp add: Int_commute)
      then show False
        using ih by simp
    qed
  next
    case False
    show ?thesis
    proof (cases s)
      case Nil
      then show ?thesis
        using assms(1) by simp
    next
      case (Cons c cs)
      then have r: "Replace s old new = c # Replace cs old new"
        using False assms(1) by (simp add: Replace_skip)
      have ih: "\<not> sublist old (Replace cs old new)"
        using "1.IH" Cons by simp
      have "\<not> prefix old (c # Replace cs old new)"
      proof
        assume "prefix old (c # Replace cs old new)"
        then have "prefix old (Replace s old new)"
          using r by simp
        then have "prefix old s"
          using prefix_of_Replace [OF assms(1,2) assms(3)] by blast
        then show False
          using False by simp
      qed
      then show ?thesis
        using r ih by (simp add: sublist_Cons_right)
    qed
  qed
qed

lemma Replace_without_old:
  assumes "old \<noteq> []" and "\<not> sublist old s"
  shows "Replace s old new = s"
  using assms(2)
proof (induction s)
  case Nil
  then show ?case
    using assms(1) by simp
next
  case (Cons c cs)
  then have "\<not> prefix old (c # cs)" and "\<not> sublist old cs"
    by (simp_all add: sublist_Cons_right)
  then show ?case
    using Cons.IH assms(1) by (simp add: Replace_skip)
qed

text \<open>
  The encoding of \<open>Request\<close> is idempotent for such constants: patching a patched body
  changes nothing.
\<close>
lemma Replace_idempotent:
  assumes "old \<noteq> []" and "new \<noteq> []" and "set old \<inter> set new = {}"
  shows "Replace (Replace s old new) old new = Replace s old new"
  by (rule Replace_without_old [OF assms(1) Replace_leaves_none [OF assms]])

text \<open>The body of \<open>Request\<close> is the patched output of \<open>json.Marshal\<close>, from its start.\<close>
lemma json_body_patched:
  "unread (json_body E (Marshals raw)) =
     Replace raw (requestSwapNullArray E) (requestSwapEmptyArray E)"
  by (simp add: json_body_def unread_def NewReader_def)

text \<open>Without the conditions the patch need not be idempotent.\<close>
lemma Replace_not_idempotent_in_general:
  "Replace (Replace ''aab'' ''ab'' ''b'') ''ab'' ''b'' \<noteq> Replace ''aab'' ''ab'' ''b''"
  by (simp add: Replace.simps)

end
